theory Spec2Isabelle
  imports Complex_Main "HOL-Library.Word" "HOL-Library.Stream"
begin

section \<open>Firestore random utilities (Firestore/src/cpp/util/random.cc)\<close>

text \<open>
  The file holds three constants and two functions, \<open>RandomDouble\<close> and \<open>CreateAutoId\<close>.
  Both functions read the process-wide entropy source of the C library, so the model
  passes the state of that source explicitly: a function takes the state and returns
  its result together with the state that follows.
\<close>

subsection \<open>What the platform supplies\<close>

text \<open>
  Three things random.cc uses are not defined in the repository: the size of a
  \<open>const char*\<close> (the operand of \<open>sizeof(kAutoIdAlphabet)\<close>, since \<open>kAutoIdAlphabet\<close> is
  declared as a pointer), and the C library calls \<open>arc4random()\<close> and
  \<open>arc4random_uniform(upper_bound)\<close>. They are parameters of the model; \<open>'s\<close> is the type
  of the state of the entropy source, and \<open>uint32_t\<close> is \<open>32 word\<close>.
\<close>

record 's platform =
  sizeof_char_ptr :: nat
  arc4random :: "'s \<Rightarrow> 32 word \<times> 's"
  arc4random_uniform :: "32 word \<Rightarrow> 's \<Rightarrow> 32 word \<times> 's"

text \<open>
  The documented contract of \<open>arc4random_uniform\<close>: the value returned is less than
  \<open>upper_bound\<close>. (Nothing is assumed about how many raw words it consumes, nor about
  the call with \<open>upper_bound = 0\<close>.)
\<close>

definition arc4random_uniform_contract :: "'s platform \<Rightarrow> bool" where
  "arc4random_uniform_contract P \<longleftrightarrow>
     (\<forall>upper_bound s. 0 < upper_bound \<longrightarrow> fst (arc4random_uniform P upper_bound s) < upper_bound)"

text \<open>
  A concrete platform, for running the model: the entropy source is a stream of raw
  32-bit words, \<open>arc4random\<close> takes the next word, and \<open>arc4random_uniform\<close> reduces the
  next word modulo the bound (0 for a bound below 2, as the BSD implementation returns).
\<close>

definition stream_platform :: "nat \<Rightarrow> 32 word stream platform" where
  "stream_platform sz =
     \<lparr>sizeof_char_ptr = sz,
      arc4random = (\<lambda>s. (shd s, stl s)),
      arc4random_uniform =
        (\<lambda>upper_bound s. (if upper_bound < 2 then 0 else shd s mod upper_bound, stl s))\<rparr>"

subsection \<open>Constants (random.cc, lines 23 to 27)\<close>

definition kArc4RandomMax :: real where
  "kArc4RandomMax = 0x100000000"

definition kAutoIdLength :: int where
  "kAutoIdLength = 20"

definition kAutoIdAlphabet :: string where
  "kAutoIdAlphabet = ''ABCDEFGHIJKLMNOPQRSTUVWXYZabcdefghijklmnopqrstuvwxyz0123456789''"

text \<open>
  A string literal is stored with a terminating NUL byte: the array behind
  \<open>kAutoIdAlphabet\<close> has 63 bytes. Reading it at an index is defined only inside the
  array; a read outside is undefined behaviour in C++, which the model returns as \<open>None\<close>.
\<close>

definition c_str :: "string \<Rightarrow> char list" where
  "c_str lit = lit @ [CHR 0x00]"

definition char_at :: "char list \<Rightarrow> nat \<Rightarrow> char option" where
  "char_at mem i = (if i < length mem then Some (mem ! i) else None)"

subsection \<open>RandomDouble (random.cc, lines 31 to 33)\<close>

text \<open>
  \<open>static_cast<double>(arc4random()) / kArc4RandomMax\<close>. The result is modelled as the
  real number the double denotes. No rounding takes place: a 32-bit unsigned integer
  and its quotient by \<open>2 ^ 32\<close> are both representable in binary64 (lemmas
  \<open>uint32_is_binary64\<close> and \<open>quotient_is_binary64\<close> below), and IEEE 754 conversion and
  division return the exact result whenever it is representable.
\<close>

definition RandomDouble :: "'s platform \<Rightarrow> 's \<Rightarrow> real \<times> 's" where
  "RandomDouble P s = (let (n, s') = arc4random P s in (real (unat n) / kArc4RandomMax, s'))"

text \<open>The finite values of binary64: \<open>m * 2 ^ e\<close> with a 53-bit significand.\<close>

definition is_binary64 :: "real \<Rightarrow> bool" where
  "is_binary64 x \<longleftrightarrow>
     (\<exists>m e :: int. \<bar>m\<bar> < 2 ^ 53 \<and> - 1074 \<le> e \<and> e \<le> 971 \<and>
        x = real_of_int m * 2 powr real_of_int e)"

subsection \<open>CreateAutoId (random.cc, lines 35 to 45)\<close>

text \<open>
  The \<open>for\<close> loop, with its counter \<open>i\<close>, the string built so far and the state of the
  entropy source. Each iteration calls \<open>arc4random_uniform\<close> with
  \<open>static_cast<uint32_t>(sizeof(kAutoIdAlphabet))\<close>, reads \<open>kAutoIdAlphabet[rand_index]\<close>
  and appends the character. \<open>reserve\<close> does not change the string.
\<close>

function CreateAutoId_loop ::
  "'s platform \<Rightarrow> int \<Rightarrow> string \<Rightarrow> 's \<Rightarrow> (string \<times> 's) option" where
  "CreateAutoId_loop P i auto_id s =
     (if i < kAutoIdLength then
        (let (rand_index, s') = arc4random_uniform P (of_nat (sizeof_char_ptr P)) s in
         case char_at (c_str kAutoIdAlphabet) (unat rand_index) of
           None \<Rightarrow> None
         | Some c \<Rightarrow> CreateAutoId_loop P (i + 1) (auto_id @ [c]) s')
      else Some (auto_id, s))"
  by pat_completeness auto
termination
  by (relation "measure (\<lambda>(P, i, auto_id, s). nat (kAutoIdLength - i))") auto

declare CreateAutoId_loop.simps [simp del]

definition CreateAutoId :: "'s platform \<Rightarrow> 's \<Rightarrow> (string \<times> 's) option" where
  "CreateAutoId P s = CreateAutoId_loop P 0 [] s"

subsection \<open>Notions the statements use\<close>

text \<open>
  The values returned by \<open>n\<close> successive calls \<open>arc4random_uniform(ub)\<close> from state \<open>s\<close>,
  and the state after them: the sequence of random indices the entropy source supplies.
\<close>

primrec uniform_draws :: "'s platform \<Rightarrow> 32 word \<Rightarrow> nat \<Rightarrow> 's \<Rightarrow> 32 word list \<times> 's" where
  "uniform_draws P ub 0 s = ([], s)"
| "uniform_draws P ub (Suc n) s =
     (let (r, s') = arc4random_uniform P ub s;
          (rs, s'') = uniform_draws P ub n s'
      in (r # rs, s''))"

text \<open>The character set \<open>{A-Z, a-z, 0-9}\<close>, by character code.\<close>

definition alphanumeric :: "char set" where
  "alphanumeric =
     {c. (65 \<le> (of_char c :: nat) \<and> (of_char c :: nat) \<le> 90) \<or>
         (97 \<le> (of_char c :: nat) \<and> (of_char c :: nat) \<le> 122) \<or>
         (48 \<le> (of_char c :: nat) \<and> (of_char c :: nat) \<le> 57)}"

text \<open>
  \<open>GenerateAutoId\<close> as the specification words it, for comparison with \<open>CreateAutoId\<close>:
  20 characters, each found by drawing an index in \<open>[0, 62)\<close> and indexing into the
  alphabet.
\<close>

definition GenerateAutoId_spec :: "'s platform \<Rightarrow> 's \<Rightarrow> string \<times> 's" where
  "GenerateAutoId_spec P s =
     (let (rs, s') = uniform_draws P 62 20 s in (map (\<lambda>r. kAutoIdAlphabet ! unat r) rs, s'))"

section \<open>Auxiliary facts\<close>

subsection \<open>The constants\<close>

lemma length_kAutoIdAlphabet: "length kAutoIdAlphabet = 62"
  by (simp add: kAutoIdAlphabet_def)

lemma length_c_str_kAutoIdAlphabet: "length (c_str kAutoIdAlphabet) = 63"
  by (simp add: c_str_def length_kAutoIdAlphabet)

lemma distinct_kAutoIdAlphabet: "distinct kAutoIdAlphabet"
  by (simp add: kAutoIdAlphabet_def)

lemma c_str_nth: "i < 62 \<Longrightarrow> c_str kAutoIdAlphabet ! i = kAutoIdAlphabet ! i"
  by (simp add: c_str_def nth_append length_kAutoIdAlphabet)

lemma c_str_terminator: "c_str kAutoIdAlphabet ! 62 = CHR 0x00"
  using nth_append_length[of kAutoIdAlphabet "CHR 0x00" "[]"]
  by (simp add: c_str_def length_kAutoIdAlphabet)

lemma kAutoIdAlphabet_codes:
  "map of_char kAutoIdAlphabet = [65..<91] @ [97..<123] @ [48..<58 :: nat]"
  by (simp add: kAutoIdAlphabet_def upt_conv_Cons)

lemma set_kAutoIdAlphabet: "set kAutoIdAlphabet = alphanumeric"
proof -
  have "c \<in> set kAutoIdAlphabet \<longleftrightarrow> c \<in> alphanumeric" for c
  proof -
    have "c \<in> set kAutoIdAlphabet \<longleftrightarrow> (of_char c :: nat) \<in> of_char ` set kAutoIdAlphabet"
      by (auto simp: image_iff)
    also have "of_char ` set kAutoIdAlphabet = set ([65..<91] @ [97..<123] @ [48..<58 :: nat])"
      using kAutoIdAlphabet_codes by (metis set_map)
    also have "\<dots> = {65..<91} \<union> ({97..<123} \<union> {48..<58})"
      by (simp only: set_append set_upt)
    also have "(of_char c :: nat) \<in> \<dots> \<longleftrightarrow> c \<in> alphanumeric"
      unfolding alphanumeric_def by (simp only: Un_iff atLeastLessThan_iff mem_Collect_eq) arith
    finally show ?thesis .
  qed
  then show ?thesis by blast
qed

lemma NUL_not_in_kAutoIdAlphabet: "CHR 0x00 \<notin> set kAutoIdAlphabet"
  by (simp add: set_kAutoIdAlphabet alphanumeric_def)

subsection \<open>Binary64 represents the values of RandomDouble exactly\<close>

lemma uint32_magnitude: "\<bar>uint (n :: 32 word)\<bar> < 2 ^ 53"
proof -
  have "uint n < 4294967296" using uint_lt2p[of n] by simp
  moreover have "0 \<le> uint n" by simp
  ultimately show ?thesis by simp
qed

lemma uint32_is_binary64: "is_binary64 (real (unat (n :: 32 word)))"
proof -
  have "real (unat n) = real_of_int (uint n) * 2 powr real_of_int 0" by simp
  with uint32_magnitude[of n] show ?thesis
    unfolding is_binary64_def by (intro exI[of _ "uint n"] exI[of _ 0]) simp
qed

lemma kArc4RandomMax_is_binary64: "is_binary64 kArc4RandomMax"
  unfolding is_binary64_def kArc4RandomMax_def
  by (intro exI[of _ 1] exI[of _ 32]) simp

lemma quotient_is_binary64: "is_binary64 (real (unat (n :: 32 word)) / kArc4RandomMax)"
proof -
  have "(2 :: real) powr - 32 = inverse (2 powr 32)"
    by (rule powr_minus)
  also have "(2 :: real) powr 32 = kArc4RandomMax"
    by (simp add: kArc4RandomMax_def)
  finally have "real_of_int (uint n) * 2 powr real_of_int (- 32) = real (unat n) / kArc4RandomMax"
    by (simp only: divide_inverse of_int_minus of_int_numeral) simp
  then have "real (unat n) / kArc4RandomMax = real_of_int (uint n) * 2 powr real_of_int (- 32)"
    by (rule sym)
  with uint32_magnitude[of n] show ?thesis
    unfolding is_binary64_def by (intro exI[of _ "uint n"] exI[of _ "- 32"]) simp
qed

lemma RandomDouble_unfold:
  "RandomDouble P s = (real (unat (fst (arc4random P s))) / kArc4RandomMax, snd (arc4random P s))"
  by (simp add: RandomDouble_def split_beta)

lemma uint32_quotient_bounds:
  "0 \<le> real (unat (n :: 32 word)) / kArc4RandomMax \<and> real (unat n) / kArc4RandomMax < 1"
proof -
  have "unat n < 4294967296"
    using unsigned_less[of n] by simp
  then have "real (unat n) < real 4294967296"
    by (simp only: of_nat_less_iff)
  then have "real (unat n) < 4294967296"
    by (simp del: of_nat_unat)
  then show ?thesis
    by (simp add: kArc4RandomMax_def del: of_nat_unat)
qed

subsection \<open>The entropy source\<close>

lemma stream_platform_sel:
  "sizeof_char_ptr (stream_platform sz) = sz"
  "arc4random (stream_platform sz) s = (shd s, stl s)"
  "arc4random_uniform (stream_platform sz) ub s = (if ub < 2 then 0 else shd s mod ub, stl s)"
  by (simp_all add: stream_platform_def)

lemma stream_platform_contract: "arc4random_uniform_contract (stream_platform sz)"
  unfolding arc4random_uniform_contract_def stream_platform_def
  by (auto simp: word_mod_less_divisor)

lemma length_uniform_draws: "length (fst (uniform_draws P ub n s)) = n"
  by (induction n arbitrary: s) (simp_all add: split_beta Let_def)

lemma uniform_draws_bounded:
  "arc4random_uniform_contract P \<Longrightarrow> 0 < ub \<Longrightarrow>
   r \<in> set (fst (uniform_draws P ub n s)) \<Longrightarrow> r < ub"
proof (induction n arbitrary: s)
  case 0
  then show ?case by simp
next
  case (Suc n)
  then show ?case
    by (auto simp: split_beta Let_def arc4random_uniform_contract_def)
qed

lemma uniform_draws_numeral:
  "uniform_draws P ub (numeral k) s =
     (let (r, s') = arc4random_uniform P ub s;
          (rs, s'') = uniform_draws P ub (pred_numeral k) s'
      in (r # rs, s''))"
  by (simp add: numeral_eq_Suc)

lemma uniform_draws_sconst:
  "uniform_draws (stream_platform sz) ub n (sconst v) =
     (replicate n (if ub < 2 then 0 else v mod ub), sconst v)"
  by (induction n) (simp_all add: stream_platform_def)

lemma sizeof_as_uint32: "sz \<le> 62 \<Longrightarrow> unat (of_nat sz :: 32 word) = sz"
  by (simp add: unat_of_nat)

subsection \<open>The loop of CreateAutoId, in terms of the indices drawn\<close>

lemma CreateAutoId_loop_draws:
  "0 \<le> i \<Longrightarrow> i \<le> kAutoIdLength \<Longrightarrow>
   CreateAutoId_loop P i auto_id s =
     (let (rs, s') = uniform_draws P (of_nat (sizeof_char_ptr P)) (nat (kAutoIdLength - i)) s in
      if list_all (\<lambda>r. unat r < length (c_str kAutoIdAlphabet)) rs
      then Some (auto_id @ map (\<lambda>r. c_str kAutoIdAlphabet ! unat r) rs, s')
      else None)"
proof (induction "nat (kAutoIdLength - i)" arbitrary: i auto_id s)
  case 0
  then have "i = kAutoIdLength" by simp
  then show ?case
    by (subst CreateAutoId_loop.simps) simp
next
  case (Suc n)
  from Suc.hyps(2) have lt: "i < kAutoIdLength" and n: "n = nat (kAutoIdLength - (i + 1))"
    by simp_all
  have unroll: "nat (kAutoIdLength - i) = Suc (nat (kAutoIdLength - (i + 1)))"
    using lt by simp
  have ih: "CreateAutoId_loop P (i + 1) a t =
     (let (rs, s') = uniform_draws P (of_nat (sizeof_char_ptr P)) (nat (kAutoIdLength - (i + 1))) t in
      if list_all (\<lambda>r. unat r < length (c_str kAutoIdAlphabet)) rs
      then Some (a @ map (\<lambda>r. c_str kAutoIdAlphabet ! unat r) rs, s')
      else None)" for a t
    using Suc.hyps(1)[OF n] Suc.prems lt by simp
  show ?case
    apply (subst CreateAutoId_loop.simps)
    apply (simp only: unroll uniform_draws.simps ih)
    apply (simp add: lt split_beta Let_def char_at_def)
    done
qed

lemma CreateAutoId_draws:
  "CreateAutoId P s =
     (let (rs, s') = uniform_draws P (of_nat (sizeof_char_ptr P)) 20 s in
      if list_all (\<lambda>r. unat r < 63) rs
      then Some (map (\<lambda>r. c_str kAutoIdAlphabet ! unat r) rs, s')
      else None)"
  unfolding CreateAutoId_def
  by (subst CreateAutoId_loop_draws)
    (simp_all add: kAutoIdLength_def length_c_str_kAutoIdAlphabet split_beta)

lemma CreateAutoId_indexed:
  assumes "arc4random_uniform_contract P"
    and "0 < sizeof_char_ptr P" and "sizeof_char_ptr P \<le> 62"
  shows "\<exists>rs s'. uniform_draws P (of_nat (sizeof_char_ptr P)) 20 s = (rs, s') \<and>
           length rs = 20 \<and> (\<forall>r\<in>set rs. unat r < sizeof_char_ptr P) \<and>
           CreateAutoId P s = Some (map (\<lambda>r. kAutoIdAlphabet ! unat r) rs, s')"
proof -
  obtain rs s' where d: "uniform_draws P (of_nat (sizeof_char_ptr P)) 20 s = (rs, s')"
    by (cases "uniform_draws P (of_nat (sizeof_char_ptr P)) 20 s")
  have sz: "unat (of_nat (sizeof_char_ptr P) :: 32 word) = sizeof_char_ptr P"
    using assms(3) by (rule sizeof_as_uint32)
  then have pos: "(0 :: 32 word) < of_nat (sizeof_char_ptr P)"
    using assms(2) by (simp add: word_less_nat_alt)
  have len: "length rs = 20"
    using length_uniform_draws[of P "of_nat (sizeof_char_ptr P)" 20 s] d by simp
  have b: "unat r < sizeof_char_ptr P" if "r \<in> set rs" for r
  proof -
    have "r < of_nat (sizeof_char_ptr P)"
      using uniform_draws_bounded[OF assms(1) pos, of r 20 s] that d by simp
    then show ?thesis using sz by (simp add: word_less_nat_alt)
  qed
  have all: "list_all (\<lambda>r. unat r < 63) rs"
    using b assms(3) by (fastforce simp: list_all_iff)
  have m: "map (\<lambda>r. c_str kAutoIdAlphabet ! unat r) rs = map (\<lambda>r. kAutoIdAlphabet ! unat r) rs"
    using b assms(3) by (intro map_cong refl c_str_nth) fastforce
  have "CreateAutoId P s = Some (map (\<lambda>r. kAutoIdAlphabet ! unat r) rs, s')"
    by (simp add: CreateAutoId_draws d all m)
  with d len b show ?thesis by blast
qed

lemma indexed_chars_in_prefix:
  fixes rs :: "32 word list"
  assumes "\<forall>r\<in>set rs. unat r < k" and "k \<le> 62"
  shows "set (map (\<lambda>r. kAutoIdAlphabet ! unat r) rs) \<subseteq> set (take k kAutoIdAlphabet)"
proof
  fix c
  assume "c \<in> set (map (\<lambda>r. kAutoIdAlphabet ! unat r) rs)"
  then obtain r :: "32 word" where r: "r \<in> set rs" and c: "c = kAutoIdAlphabet ! unat r"
    by auto
  from r assms(1) have lt: "unat r < k" by blast
  then have "take k kAutoIdAlphabet ! unat r = c"
    using c by simp
  moreover have "unat r < length (take k kAutoIdAlphabet)"
    using lt assms(2) by (simp add: length_kAutoIdAlphabet)
  ultimately show "c \<in> set (take k kAutoIdAlphabet)"
    using nth_mem by blast
qed

subsection \<open>Two runs on the stream platform\<close>

lemma CreateAutoId_constant_stream:
  "CreateAutoId (stream_platform 8) (sconst 61) = Some (''FFFFFFFFFFFFFFFFFFFF'', sconst 61)"
  by (simp add: CreateAutoId_draws uniform_draws_numeral stream_platform_sel c_str_def
      kAutoIdAlphabet_def)

lemma CreateAutoId_stepping_stream:
  "CreateAutoId (stream_platform 8) (siterate (\<lambda>w. w + 7) 0) =
     Some (''AHGFEDCBAHGFEDCBAHGF'', siterate (\<lambda>w. w + 7) 140)"
  by (simp add: CreateAutoId_draws uniform_draws_numeral stream_platform_sel c_str_def
      kAutoIdAlphabet_def)

lemma GenerateAutoId_spec_constant_stream:
  "GenerateAutoId_spec (stream_platform 8) (sconst 61) = (''99999999999999999999'', sconst 61)"
  by (simp add: GenerateAutoId_spec_def uniform_draws_numeral stream_platform_sel
      kAutoIdAlphabet_def)

section \<open>The claims\<close>

text \<open>
  C7. The length and the alphabet of \<open>CreateAutoId\<close> are fixed constants: the length is
  20, and the alphabet is the string of the 62 alphanumeric characters, upper case, then
  lower case, then digits, each once, in that order.
\<close>

theorem auto_id_constants:
  "kAutoIdLength = 20 \<and>
   kAutoIdAlphabet = ''ABCDEFGHIJKLMNOPQRSTUVWXYZabcdefghijklmnopqrstuvwxyz0123456789'' \<and>
   length kAutoIdAlphabet = 62 \<and> distinct kAutoIdAlphabet \<and>
   set kAutoIdAlphabet = alphanumeric \<and>
   map of_char kAutoIdAlphabet = [65..<91] @ [97..<123] @ [48..<58 :: nat]"
proof -
  have "kAutoIdLength = 20"
    by (simp add: kAutoIdLength_def)
  moreover have
    "kAutoIdAlphabet = ''ABCDEFGHIJKLMNOPQRSTUVWXYZabcdefghijklmnopqrstuvwxyz0123456789''"
    by (rule kAutoIdAlphabet_def)
  ultimately show ?thesis
    using length_kAutoIdAlphabet distinct_kAutoIdAlphabet set_kAutoIdAlphabet
      kAutoIdAlphabet_codes
    by blast
qed

text \<open>
  C4. On every platform whose \<open>arc4random_uniform\<close> keeps its contract and whose pointers
  have between 1 and 62 bytes, and from every state of the entropy source,
  \<open>CreateAutoId\<close> returns a string of length exactly 20.
\<close>

theorem CreateAutoId_length:
  assumes "arc4random_uniform_contract P"
    and "0 < sizeof_char_ptr P" and "sizeof_char_ptr P \<le> 62"
  shows "\<exists>auto_id s'. CreateAutoId P s = Some (auto_id, s') \<and> length auto_id = 20"
proof -
  from CreateAutoId_indexed[OF assms, of s] obtain rs :: "32 word list" and s'
    where "length rs = 20"
      and "CreateAutoId P s = Some (map (\<lambda>r. kAutoIdAlphabet ! unat r) rs, s')"
    by blast
  then show ?thesis by simp
qed

theorem CreateAutoId_length_witness:
  "arc4random_uniform_contract (stream_platform 8) \<and>
   0 < sizeof_char_ptr (stream_platform 8) \<and> sizeof_char_ptr (stream_platform 8) \<le> 62 \<and>
   (\<exists>auto_id s'. CreateAutoId (stream_platform 8) (sconst 61) = Some (auto_id, s') \<and>
      length auto_id = 20) \<and>
   CreateAutoId (stream_platform 8) (sconst 61) = Some (''FFFFFFFFFFFFFFFFFFFF'', sconst 61)"
proof -
  have c: "arc4random_uniform_contract (stream_platform 8)"
    by (rule stream_platform_contract)
  have lo: "0 < sizeof_char_ptr (stream_platform 8)"
    and hi: "sizeof_char_ptr (stream_platform 8) \<le> 62"
    by (simp_all add: stream_platform_sel)
  show ?thesis
    using c lo hi CreateAutoId_length[OF c lo hi, of "sconst 61"] CreateAutoId_constant_stream
    by blast
qed

text \<open>
  C5. From every state of the entropy source, the value \<open>r\<close> returned by \<open>RandomDouble\<close>
  satisfies \<open>0 \<le> r < 1\<close>.
\<close>

theorem RandomDouble_unit_interval:
  "0 \<le> fst (RandomDouble P s) \<and> fst (RandomDouble P s) < 1"
  using uint32_quotient_bounds[of "fst (arc4random P s)"]
  by (simp only: RandomDouble_unfold fst_conv)

text \<open>
  C6. \<open>RandomDouble\<close> returns exactly \<open>n / 2 ^ 32\<close>, where \<open>n\<close> is the 32-bit word that
  \<open>arc4random\<close> returns, a value binary64 represents without rounding; 0 gives exactly 0,
  and the largest word \<open>2 ^ 32 - 1\<close> gives \<open>4294967295 / 4294967296\<close>, below 1.
\<close>

theorem RandomDouble_exact_quotient:
  assumes "arc4random P s = (n, s')"
  shows "RandomDouble P s = (real (unat n) / 2 ^ 32, s') \<and>
         is_binary64 (fst (RandomDouble P s)) \<and>
         (n = 0 \<longrightarrow> fst (RandomDouble P s) = 0) \<and>
         (n = 0xFFFFFFFF \<longrightarrow>
            fst (RandomDouble P s) = 4294967295 / 4294967296 \<and> fst (RandomDouble P s) < 1)"
proof -
  have r: "RandomDouble P s = (real (unat n) / kArc4RandomMax, s')"
    using assms by (simp add: RandomDouble_def)
  have k: "kArc4RandomMax = 2 ^ 32"
    by (simp add: kArc4RandomMax_def)
  have "RandomDouble P s = (real (unat n) / 2 ^ 32, s')"
    using r by (simp only: k)
  moreover have "is_binary64 (fst (RandomDouble P s))"
    using quotient_is_binary64[of n] by (simp only: r fst_conv)
  moreover have "fst (RandomDouble P s) = 0" if "n = 0"
    using that by (simp add: r)
  moreover have "fst (RandomDouble P s) = 4294967295 / 4294967296 \<and> fst (RandomDouble P s) < 1"
    if "n = 0xFFFFFFFF"
    using that by (simp add: r kArc4RandomMax_def)
  ultimately show ?thesis by blast
qed

theorem RandomDouble_exact_quotient_witness:
  "arc4random (stream_platform 8) (sconst 0) = (0, sconst 0) \<and>
   RandomDouble (stream_platform 8) (sconst 0) = (0, sconst 0) \<and>
   arc4random (stream_platform 8) (sconst 0xFFFFFFFF) = (0xFFFFFFFF, sconst 0xFFFFFFFF) \<and>
   RandomDouble (stream_platform 8) (sconst 0xFFFFFFFF) =
     (4294967295 / 4294967296, sconst 0xFFFFFFFF) \<and>
   fst (RandomDouble (stream_platform 8) (sconst 0xFFFFFFFF)) < 1"
proof -
  have lo: "arc4random (stream_platform 8) (sconst 0) = (0, sconst 0)"
    by (simp add: stream_platform_sel)
  have hi: "arc4random (stream_platform 8) (sconst 0xFFFFFFFF) = (0xFFFFFFFF, sconst 0xFFFFFFFF)"
    by (simp add: stream_platform_sel)
  show ?thesis
    using lo hi RandomDouble_exact_quotient[OF lo] RandomDouble_exact_quotient[OF hi]
    by simp
qed

text \<open>
  C3. Under the same conditions on the platform, every character of the string that
  \<open>CreateAutoId\<close> returns is a character of the alphabet, that is, one of \<open>A-Z\<close>, \<open>a-z\<close>,
  \<open>0-9\<close>.
\<close>

theorem CreateAutoId_alphabet_membership:
  assumes "arc4random_uniform_contract P"
    and "0 < sizeof_char_ptr P" and "sizeof_char_ptr P \<le> 62"
  shows "\<exists>auto_id s'. CreateAutoId P s = Some (auto_id, s') \<and>
           (\<forall>c\<in>set auto_id. c \<in> set kAutoIdAlphabet \<and> c \<in> alphanumeric)"
proof -
  from CreateAutoId_indexed[OF assms, of s] obtain rs :: "32 word list" and s'
    where b: "\<forall>r\<in>set rs. unat r < sizeof_char_ptr P"
      and run: "CreateAutoId P s = Some (map (\<lambda>r. kAutoIdAlphabet ! unat r) rs, s')"
    by blast
  have "set (map (\<lambda>r. kAutoIdAlphabet ! unat r) rs) \<subseteq> set (take (sizeof_char_ptr P) kAutoIdAlphabet)"
    using b assms(3) by (rule indexed_chars_in_prefix)
  also have "\<dots> \<subseteq> set kAutoIdAlphabet"
    by (rule set_take_subset)
  finally have "\<forall>c\<in>set (map (\<lambda>r. kAutoIdAlphabet ! unat r) rs).
      c \<in> set kAutoIdAlphabet \<and> c \<in> alphanumeric"
    using set_kAutoIdAlphabet by blast
  with run show ?thesis by blast
qed

theorem CreateAutoId_alphabet_membership_witness:
  "arc4random_uniform_contract (stream_platform 4) \<and>
   0 < sizeof_char_ptr (stream_platform 4) \<and> sizeof_char_ptr (stream_platform 4) \<le> 62 \<and>
   (\<exists>auto_id s'. CreateAutoId (stream_platform 4) (sconst 7) = Some (auto_id, s') \<and>
      set auto_id \<subseteq> set kAutoIdAlphabet \<and> set auto_id \<subseteq> alphanumeric)"
proof -
  have c: "arc4random_uniform_contract (stream_platform 4)"
    by (rule stream_platform_contract)
  have lo: "0 < sizeof_char_ptr (stream_platform 4)"
    and hi: "sizeof_char_ptr (stream_platform 4) \<le> 62"
    by (simp_all add: stream_platform_sel)
  show ?thesis
    using c lo hi CreateAutoId_alphabet_membership[OF c lo hi, of "sconst 7"]
    by blast
qed

text \<open>
  C2. On a platform with 8-byte pointers, \<open>arc4random_uniform\<close> is called with the bound
  8, every index drawn is below 8, and every character of the string returned is one of
  the first 8 characters of the alphabet, \<open>A\<close> to \<open>H\<close>.
\<close>

theorem CreateAutoId_index_below_pointer_size:
  assumes "arc4random_uniform_contract P" and "sizeof_char_ptr P = 8"
  shows "(of_nat (sizeof_char_ptr P) :: 32 word) = 8 \<and>
         (\<exists>rs s'. uniform_draws P 8 20 s = (rs, s') \<and>
            (\<forall>r\<in>set rs. unat r < 8) \<and>
            CreateAutoId P s = Some (map (\<lambda>r. kAutoIdAlphabet ! unat r) rs, s') \<and>
            set (map (\<lambda>r. kAutoIdAlphabet ! unat r) rs) \<subseteq> set ''ABCDEFGH'')"
proof -
  have bound: "(of_nat (sizeof_char_ptr P) :: 32 word) = 8"
    using assms(2) by simp
  have lo: "0 < sizeof_char_ptr P" and hi: "sizeof_char_ptr P \<le> 62"
    using assms(2) by simp_all
  from CreateAutoId_indexed[OF assms(1) lo hi, of s] obtain rs :: "32 word list" and s'
    where d0: "uniform_draws P (of_nat (sizeof_char_ptr P)) 20 s = (rs, s')"
      and b0: "\<forall>r\<in>set rs. unat r < sizeof_char_ptr P"
      and run: "CreateAutoId P s = Some (map (\<lambda>r. kAutoIdAlphabet ! unat r) rs, s')"
    by blast
  from d0 have d: "uniform_draws P 8 20 s = (rs, s')"
    by (simp only: bound)
  from b0 have b: "\<forall>r\<in>set rs. unat r < 8"
    by (simp only: assms(2))
  have "set (map (\<lambda>r. kAutoIdAlphabet ! unat r) rs) \<subseteq> set (take 8 kAutoIdAlphabet)"
    using b by (rule indexed_chars_in_prefix) simp
  also have "take 8 kAutoIdAlphabet = ''ABCDEFGH''"
    by (simp add: kAutoIdAlphabet_def)
  finally show ?thesis
    using bound d b run by blast
qed

theorem CreateAutoId_index_below_pointer_size_witness:
  "arc4random_uniform_contract (stream_platform 8) \<and> sizeof_char_ptr (stream_platform 8) = 8 \<and>
   uniform_draws (stream_platform 8) 8 20 (siterate (\<lambda>w. w + 7) 0) =
     ([0, 7, 6, 5, 4, 3, 2, 1, 0, 7, 6, 5, 4, 3, 2, 1, 0, 7, 6, 5], siterate (\<lambda>w. w + 7) 140) \<and>
   CreateAutoId (stream_platform 8) (siterate (\<lambda>w. w + 7) 0) =
     Some (''AHGFEDCBAHGFEDCBAHGF'', siterate (\<lambda>w. w + 7) 140) \<and>
   set ''AHGFEDCBAHGFEDCBAHGF'' \<subseteq> set ''ABCDEFGH''"
proof -
  have c: "arc4random_uniform_contract (stream_platform 8)"
    by (rule stream_platform_contract)
  have sz: "sizeof_char_ptr (stream_platform 8) = 8"
    by (simp add: stream_platform_sel)
  have d: "uniform_draws (stream_platform 8) 8 20 (siterate (\<lambda>w. w + 7) 0) =
     ([0, 7, 6, 5, 4, 3, 2, 1, 0, 7, 6, 5, 4, 3, 2, 1, 0, 7, 6, 5], siterate (\<lambda>w. w + 7) 140)"
    by (simp add: uniform_draws_numeral stream_platform_sel)
  show ?thesis
    using c sz d CreateAutoId_index_below_pointer_size[OF c sz, of "siterate (\<lambda>w. w + 7) 0"]
      CreateAutoId_stepping_stream
    by simp
qed

text \<open>
  C10. Under the same conditions on the platform, every index at which \<open>CreateAutoId\<close>
  reads the alphabet is below 62: each read is inside the 63-byte array, whose last byte
  is the terminating NUL, and the NUL is never a character of the string returned.
\<close>

theorem CreateAutoId_reads_in_bounds:
  assumes "arc4random_uniform_contract P"
    and "0 < sizeof_char_ptr P" and "sizeof_char_ptr P \<le> 62"
  shows "length (c_str kAutoIdAlphabet) = 63 \<and> c_str kAutoIdAlphabet ! 62 = CHR 0x00 \<and>
         (\<exists>rs s'. uniform_draws P (of_nat (sizeof_char_ptr P)) 20 s = (rs, s') \<and>
            (\<forall>r\<in>set rs. unat r < 62 \<and>
               char_at (c_str kAutoIdAlphabet) (unat r) = Some (kAutoIdAlphabet ! unat r)) \<and>
            CreateAutoId P s = Some (map (\<lambda>r. kAutoIdAlphabet ! unat r) rs, s') \<and>
            CHR 0x00 \<notin> set (map (\<lambda>r. kAutoIdAlphabet ! unat r) rs))"
proof -
  from CreateAutoId_indexed[OF assms, of s] obtain rs :: "32 word list" and s'
    where d: "uniform_draws P (of_nat (sizeof_char_ptr P)) 20 s = (rs, s')"
      and b: "\<forall>r\<in>set rs. unat r < sizeof_char_ptr P"
      and run: "CreateAutoId P s = Some (map (\<lambda>r. kAutoIdAlphabet ! unat r) rs, s')"
    by blast
  have inb: "unat r < 62 \<and> char_at (c_str kAutoIdAlphabet) (unat r) = Some (kAutoIdAlphabet ! unat r)"
    if "r \<in> set rs" for r
  proof -
    from that b assms(3) have lt: "unat r < 62" by fastforce
    then show ?thesis
      by (simp add: char_at_def length_c_str_kAutoIdAlphabet c_str_nth)
  qed
  have "set (map (\<lambda>r. kAutoIdAlphabet ! unat r) rs) \<subseteq> set (take (sizeof_char_ptr P) kAutoIdAlphabet)"
    using b assms(3) by (rule indexed_chars_in_prefix)
  also have "\<dots> \<subseteq> set kAutoIdAlphabet"
    by (rule set_take_subset)
  finally have nul: "CHR 0x00 \<notin> set (map (\<lambda>r. kAutoIdAlphabet ! unat r) rs)"
    using NUL_not_in_kAutoIdAlphabet by blast
  show ?thesis
    using length_c_str_kAutoIdAlphabet c_str_terminator d inb run nul by blast
qed

theorem CreateAutoId_reads_in_bounds_witness:
  "arc4random_uniform_contract (stream_platform 8) \<and>
   0 < sizeof_char_ptr (stream_platform 8) \<and> sizeof_char_ptr (stream_platform 8) \<le> 62 \<and>
   (\<exists>rs s'. uniform_draws (stream_platform 8) (of_nat (sizeof_char_ptr (stream_platform 8))) 20
        (sconst 0xFFFFFFFF) = (rs, s') \<and>
      list_all (\<lambda>r. unat r < 62) rs \<and>
      CreateAutoId (stream_platform 8) (sconst 0xFFFFFFFF) =
        Some (map (\<lambda>r. kAutoIdAlphabet ! unat r) rs, s') \<and>
      CHR 0x00 \<notin> set (map (\<lambda>r. kAutoIdAlphabet ! unat r) rs))"
proof -
  have c: "arc4random_uniform_contract (stream_platform 8)"
    by (rule stream_platform_contract)
  have lo: "0 < sizeof_char_ptr (stream_platform 8)"
    and hi: "sizeof_char_ptr (stream_platform 8) \<le> 62"
    by (simp_all add: stream_platform_sel)
  from CreateAutoId_reads_in_bounds[OF c lo hi, of "sconst 0xFFFFFFFF"]
  have "\<exists>rs s'. uniform_draws (stream_platform 8) (of_nat (sizeof_char_ptr (stream_platform 8))) 20
        (sconst 0xFFFFFFFF) = (rs, s') \<and>
      list_all (\<lambda>r. unat r < 62) rs \<and>
      CreateAutoId (stream_platform 8) (sconst 0xFFFFFFFF) =
        Some (map (\<lambda>r. kAutoIdAlphabet ! unat r) rs, s') \<and>
      CHR 0x00 \<notin> set (map (\<lambda>r. kAutoIdAlphabet ! unat r) rs)"
    unfolding list_all_iff by blast
  with c lo hi show ?thesis by blast
qed

text \<open>
  C8. The string \<open>CreateAutoId\<close> returns is a function of the indices the entropy source
  supplies: two runs (on any two platforms, from any two states) in which the 20 calls of
  \<open>arc4random_uniform\<close> return the same sequence of indices return the same string of 20
  characters.
\<close>

theorem CreateAutoId_determined_by_draws:
  assumes "arc4random_uniform_contract P1"
    and "0 < sizeof_char_ptr P1" and "sizeof_char_ptr P1 \<le> 62"
    and "fst (uniform_draws P2 (of_nat (sizeof_char_ptr P2)) 20 s2) =
         fst (uniform_draws P1 (of_nat (sizeof_char_ptr P1)) 20 s1)"
  shows "\<exists>auto_id t1 t2. CreateAutoId P1 s1 = Some (auto_id, t1) \<and>
           CreateAutoId P2 s2 = Some (auto_id, t2) \<and> length auto_id = 20"
proof -
  from CreateAutoId_indexed[OF assms(1-3), of s1] obtain rs :: "32 word list" and t1
    where d1: "uniform_draws P1 (of_nat (sizeof_char_ptr P1)) 20 s1 = (rs, t1)"
      and len: "length rs = 20"
      and b: "\<forall>r\<in>set rs. unat r < sizeof_char_ptr P1"
      and run1: "CreateAutoId P1 s1 = Some (map (\<lambda>r. kAutoIdAlphabet ! unat r) rs, t1)"
    by blast
  from assms(4) d1 obtain t2
    where d2: "uniform_draws P2 (of_nat (sizeof_char_ptr P2)) 20 s2 = (rs, t2)"
    by (cases "uniform_draws P2 (of_nat (sizeof_char_ptr P2)) 20 s2") simp
  have lt: "unat r < 62" if "r \<in> set rs" for r
    using that b assms(3) by fastforce
  then have all: "list_all (\<lambda>r. unat r < 63) rs"
    by (fastforce simp: list_all_iff)
  have m: "map (\<lambda>r. c_str kAutoIdAlphabet ! unat r) rs = map (\<lambda>r. kAutoIdAlphabet ! unat r) rs"
    using lt by (intro map_cong refl c_str_nth)
  have run2: "CreateAutoId P2 s2 = Some (map (\<lambda>r. kAutoIdAlphabet ! unat r) rs, t2)"
    by (simp add: CreateAutoId_draws d2 all m)
  from run1 run2 len show ?thesis by simp
qed

theorem CreateAutoId_determined_by_draws_witness:
  "arc4random_uniform_contract (stream_platform 8) \<and>
   0 < sizeof_char_ptr (stream_platform 8) \<and> sizeof_char_ptr (stream_platform 8) \<le> 62 \<and>
   fst (uniform_draws (stream_platform 8) (of_nat (sizeof_char_ptr (stream_platform 8))) 20
          (sconst 13)) =
   fst (uniform_draws (stream_platform 8) (of_nat (sizeof_char_ptr (stream_platform 8))) 20
          (sconst 61)) \<and>
   (\<exists>auto_id t1 t2. CreateAutoId (stream_platform 8) (sconst 61) = Some (auto_id, t1) \<and>
      CreateAutoId (stream_platform 8) (sconst 13) = Some (auto_id, t2) \<and> length auto_id = 20)"
proof -
  have c: "arc4random_uniform_contract (stream_platform 8)"
    by (rule stream_platform_contract)
  have lo: "0 < sizeof_char_ptr (stream_platform 8)"
    and hi: "sizeof_char_ptr (stream_platform 8) \<le> 62"
    by (simp_all add: stream_platform_sel)
  have same: "fst (uniform_draws (stream_platform 8)
        (of_nat (sizeof_char_ptr (stream_platform 8))) 20 (sconst 13)) =
      fst (uniform_draws (stream_platform 8)
        (of_nat (sizeof_char_ptr (stream_platform 8))) 20 (sconst 61))"
    by (simp add: uniform_draws_sconst stream_platform_sel)
  show ?thesis
    using c lo hi same CreateAutoId_determined_by_draws[OF c lo hi same]
    by blast
qed

text \<open>
  C9. Both functions are total. \<open>RandomDouble\<close> returns a finite binary64 value (its
  divisor is not zero) from every state. Under the conditions on the platform of C4,
  \<open>CreateAutoId\<close> returns a string, never the error outcome, and its loop makes exactly
  \<open>kAutoIdLength = 20\<close> calls of \<open>arc4random_uniform\<close>: the state it leaves is the state
  after 20 draws.
\<close>

theorem random_functions_total:
  assumes "arc4random_uniform_contract P"
    and "0 < sizeof_char_ptr P" and "sizeof_char_ptr P \<le> 62"
  shows "(\<exists>r s'. RandomDouble P s = (r, s') \<and> is_binary64 r) \<and> kArc4RandomMax \<noteq> 0 \<and>
         (\<exists>auto_id s'. CreateAutoId P s = Some (auto_id, s') \<and>
            s' = snd (uniform_draws P (of_nat (sizeof_char_ptr P)) (nat kAutoIdLength) s)) \<and>
         nat kAutoIdLength = 20"
proof -
  have "is_binary64 (fst (RandomDouble P s))"
    using quotient_is_binary64[of "fst (arc4random P s)"]
    by (simp only: RandomDouble_unfold fst_conv)
  then have dbl: "\<exists>r s'. RandomDouble P s = (r, s') \<and> is_binary64 r"
    by (metis prod.collapse)
  have k: "kArc4RandomMax \<noteq> 0"
    by (simp add: kArc4RandomMax_def)
  have n: "nat kAutoIdLength = 20"
    by (simp add: kAutoIdLength_def)
  from CreateAutoId_indexed[OF assms, of s] obtain rs :: "32 word list" and s'
    where "uniform_draws P (of_nat (sizeof_char_ptr P)) 20 s = (rs, s')"
      and "CreateAutoId P s = Some (map (\<lambda>r. kAutoIdAlphabet ! unat r) rs, s')"
    by blast
  then have "\<exists>auto_id s'. CreateAutoId P s = Some (auto_id, s') \<and>
      s' = snd (uniform_draws P (of_nat (sizeof_char_ptr P)) (nat kAutoIdLength) s)"
    by (simp add: n)
  with dbl k n show ?thesis by blast
qed

theorem random_functions_total_witness:
  "arc4random_uniform_contract (stream_platform 4) \<and>
   0 < sizeof_char_ptr (stream_platform 4) \<and> sizeof_char_ptr (stream_platform 4) \<le> 62 \<and>
   (\<exists>r s'. RandomDouble (stream_platform 4) (siterate (\<lambda>w. w + 7) 0) = (r, s') \<and> is_binary64 r) \<and>
   (\<exists>auto_id s'. CreateAutoId (stream_platform 4) (siterate (\<lambda>w. w + 7) 0) = Some (auto_id, s') \<and>
      s' = snd (uniform_draws (stream_platform 4) (of_nat (sizeof_char_ptr (stream_platform 4)))
             (nat kAutoIdLength) (siterate (\<lambda>w. w + 7) 0)))"
proof -
  have c: "arc4random_uniform_contract (stream_platform 4)"
    by (rule stream_platform_contract)
  have lo: "0 < sizeof_char_ptr (stream_platform 4)"
    and hi: "sizeof_char_ptr (stream_platform 4) \<le> 62"
    by (simp_all add: stream_platform_sel)
  show ?thesis
    using c lo hi random_functions_total[OF c lo hi, of "siterate (\<lambda>w. w + 7) 0"]
    by blast
qed

text \<open>
  C1 (the code departs from it). The claim has every character drawn from all 62
  characters of the alphabet. On a platform with 8-byte pointers the bound passed to
  \<open>arc4random_uniform\<close> is \<open>sizeof(kAutoIdAlphabet) = 8\<close>, the size of the pointer, so none
  of the 54 characters from \<open>I\<close> on is ever part of the string returned.
\<close>

theorem CreateAutoId_alphabet_tail_unreachable:
  assumes "arc4random_uniform_contract P" and "sizeof_char_ptr P = 8"
    and "c \<in> set (drop 8 kAutoIdAlphabet)"
  shows "\<exists>auto_id s'. CreateAutoId P s = Some (auto_id, s') \<and> c \<notin> set auto_id"
proof -
  have lo: "0 < sizeof_char_ptr P" and hi: "sizeof_char_ptr P \<le> 62"
    using assms(2) by simp_all
  from CreateAutoId_indexed[OF assms(1) lo hi, of s] obtain rs :: "32 word list" and s'
    where b0: "\<forall>r\<in>set rs. unat r < sizeof_char_ptr P"
      and run: "CreateAutoId P s = Some (map (\<lambda>r. kAutoIdAlphabet ! unat r) rs, s')"
    by blast
  from b0 have b: "\<forall>r\<in>set rs. unat r < 8"
    by (simp only: assms(2))
  have sub: "set (map (\<lambda>r. kAutoIdAlphabet ! unat r) rs) \<subseteq> set (take 8 kAutoIdAlphabet)"
    using b by (rule indexed_chars_in_prefix) simp
  have "set (take 8 kAutoIdAlphabet) \<inter> set (drop 8 kAutoIdAlphabet) = {}"
    using distinct_kAutoIdAlphabet by (rule set_take_disj_set_drop_if_distinct) simp
  with sub assms(3) have "c \<notin> set (map (\<lambda>r. kAutoIdAlphabet ! unat r) rs)"
    by blast
  with run show ?thesis by blast
qed

theorem CreateAutoId_alphabet_tail_unreachable_witness:
  "arc4random_uniform_contract (stream_platform 8) \<and> sizeof_char_ptr (stream_platform 8) = 8 \<and>
   CHR ''9'' \<in> set (drop 8 kAutoIdAlphabet) \<and>
   (\<exists>auto_id s'. CreateAutoId (stream_platform 8) (sconst 61) = Some (auto_id, s') \<and>
      CHR ''9'' \<notin> set auto_id) \<and>
   CreateAutoId (stream_platform 8) (sconst 61) = Some (''FFFFFFFFFFFFFFFFFFFF'', sconst 61) \<and>
   GenerateAutoId_spec (stream_platform 8) (sconst 61) = (''99999999999999999999'', sconst 61)"
proof -
  have c: "arc4random_uniform_contract (stream_platform 8)"
    by (rule stream_platform_contract)
  have sz: "sizeof_char_ptr (stream_platform 8) = 8"
    by (simp add: stream_platform_sel)
  have tail: "CHR ''9'' \<in> set (drop 8 kAutoIdAlphabet)"
    by (simp add: kAutoIdAlphabet_def)
  show ?thesis
    using c sz tail CreateAutoId_alphabet_tail_unreachable[OF c sz tail, of "sconst 61"]
      CreateAutoId_constant_stream GenerateAutoId_spec_constant_stream
    by blast
qed

end
